theory Spec2Isabelle
  imports Complex_Main "HOL-Library.Multiset"
begin

section \<open>Numbers of the host language\<close>

text \<open>
  The program is JavaScript. Its integer-valued numbers are modelled by \<open>int\<close>; the one
  non-integer result the modelled code can produce, \<open>NaN\<close> (a remainder by zero, the time
  of an unparsable date), is a value of its own.
\<close>

datatype jsnum = NaN | Num int



text \<open>Reading \<open>xs[i]\<close>: \<open>undefined\<close> (here \<open>None\<close>) outside the array and at \<open>NaN\<close>.\<close>

fun js_index :: "'a list \<Rightarrow> jsnum \<Rightarrow> 'a option" where
  "js_index xs NaN = None"
| "js_index xs (Num i) = (if 0 \<le> i \<and> i < int (length xs) then Some (xs ! nat i) else None)"

section \<open>The shuffle generator\<close>







section \<open>The Ambient Controller: the shuffle cursor\<close>















section \<open>The Scanner Controller: data\<close>

text \<open>
  A feed's \<open>type\<close> is \<open>'openmhz'\<close> or anything else; the code only ever tests
  \<open>type === 'openmhz'\<close> and treats every other feed as a direct stream.
\<close>

datatype feed_type = Stream | OpenMHz

record feed =
  city :: string
  state :: string
  desc :: string
  ftype :: feed_type
  system :: "string option"
  url :: "string option"

definition SCANNER_FEEDS :: "feed list" where
  "SCANNER_FEEDS =
     [ \<lparr> city = ''Dallas'', state = ''TX'', desc = ''Police & Fire'', ftype = OpenMHz,
         system = Some ''ntirnd1'', url = None \<rparr>,
       \<lparr> city = ''San Francisco'', state = ''CA'', desc = ''Police'', ftype = OpenMHz,
         system = Some ''sfp25'', url = None \<rparr> ]"

text \<open>
  A call of the polling API. \<open>time\<close> is what the code makes of the field: absent or falsy
  (\<open>NoTime\<close>), present but not a date, so that \<open>new Date(time).getTime()\<close> is \<open>NaN\<close>
  (\<open>InvalidTime\<close>), or a date with its time value in milliseconds.
\<close>

datatype calltime = NoTime | InvalidTime | TimeMs int

record call =
  call_url :: "string option"
  filename :: "string option"
  len :: real
  time :: calltime

text \<open>Truthiness of an optional string, and \<open>a || b\<close> on such values.\<close>

definition truthy :: "string option \<Rightarrow> bool" where
  "truthy v = (case v of None \<Rightarrow> False | Some str \<Rightarrow> str \<noteq> [])"

definition js_or :: "string option \<Rightarrow> string option \<Rightarrow> string option" where
  "js_or a b = (if truthy a then a else b)"

text \<open>
  A request of \<open>fetchCalls\<close> that is in flight: the system and the \<open>time\<close> parameter of its
  URL, and whether \<open>startOpenMHz\<close> is awaiting this invocation (it installs the polling
  interval when the invocation completes).
\<close>

record request =
  req_system :: "string option"
  req_time :: jsnum
  awaited :: bool

text \<open>
  The controller's fields; the parts of the page it writes (status text, the \<open>hidden\<close> class
  of the live badge, the \<open>active\<close> class of the panel and of the visualizer bars, the
  \<open>playing\<close> class and the \<open>disabled\<close> flag of the play button); the audio element (its
  \<open>src\<close>, \<open>paused\<close>, \<open>ended\<close> and \<open>volume\<close>); and the event loop: the interval timers
  that are active, the next timer handle, the requests in flight, and the number of
  pending \<open>setTimeout(() => this.playNextCall(), 300)\<close>.
\<close>

record scanner =
  isPlaying :: bool
  currentFeed :: "feed option"
  callQueue :: "call list"
  pollTimer :: "nat option"
  lastCallTime :: "jsnum option"
  statusText :: string
  liveHidden :: bool
  panelActive :: bool
  vizActive :: bool
  playBtnPlaying :: bool
  playBtnDisabled :: bool
  audioSrc :: "string option"
  audioPaused :: bool
  audioEnded :: bool
  volume :: real
  intervals :: "nat list"
  nextHandle :: nat
  requests :: "request list"
  retries :: nat

text \<open>
  The state the constructor leaves. The markup is not part of the sources: the page is
  taken inactive (badge hidden, nothing active, button disabled), the slider at \<open>v\<close>.
  Timer handles are positive.
\<close>

definition scanner_init :: "int \<Rightarrow> scanner" where
  "scanner_init v =
     \<lparr> isPlaying = False, currentFeed = None, callQueue = [], pollTimer = None,
       lastCallTime = None, statusText = [], liveHidden = True, panelActive = False,
       vizActive = False, playBtnPlaying = False, playBtnDisabled = True,
       audioSrc = None, audioPaused = True, audioEnded = False, volume = real_of_int v / 100,
       intervals = [], nextHandle = 1, requests = [], retries = 0 \<rparr>"

text \<open>
  A handler either completes or stops at an uncaught \<open>TypeError\<close> (reading a property of
  an undefined feed); either way it leaves the state it reached.
\<close>

datatype 'a completion = Normal 'a | Threw 'a

fun final :: "'a completion \<Rightarrow> 'a" where
  "final (Normal s) = s"
| "final (Threw s) = s"

section \<open>The Scanner Controller: operations\<close>

definition setStatus :: "string \<Rightarrow> scanner \<Rightarrow> scanner" where
  "setStatus text s = s\<lparr> statusText := text \<rparr>"

definition LISTENING :: string where
  "LISTENING = ''Listening for calls...''"

text \<open>The dash of this message is U+2014, here in its three bytes of UTF-8.\<close>

definition UNAVAILABLE :: string where
  "UNAVAILABLE = ''Stream unavailable '' @ [CHR 0xE2, CHR 0x80, CHR 0x94] @ '' try another city''"

text \<open>
  The audio element, by what the HTML standard prescribes for the calls the code makes:
  \<open>pause()\<close> sets \<open>paused\<close>; \<open>load()\<close> sets \<open>paused\<close> and resets playback; \<open>play()\<close>
  clears \<open>paused\<close> (the page being allowed to play).
\<close>

definition audio_pause :: "scanner \<Rightarrow> scanner" where
  "audio_pause s = s\<lparr> audioPaused := True \<rparr>"

definition audio_load :: "scanner \<Rightarrow> scanner" where
  "audio_load s = s\<lparr> audioPaused := True, audioEnded := False \<rparr>"

definition audio_play :: "scanner \<Rightarrow> scanner" where
  "audio_play s = s\<lparr> audioPaused := False \<rparr>"

definition setVisualizerActive :: "bool \<Rightarrow> scanner \<Rightarrow> scanner" where
  "setVisualizerActive active s = s\<lparr> vizActive := active \<rparr>"

text \<open>\<open>setInterval\<close> hands out a fresh handle; \<open>clearInterval\<close> removes it.\<close>

definition install_interval :: "scanner \<Rightarrow> scanner" where
  "install_interval s =
     s\<lparr> pollTimer := Some (nextHandle s), intervals := intervals s @ [nextHandle s],
        nextHandle := Suc (nextHandle s) \<rparr>"

definition stopOpenMHz :: "scanner \<Rightarrow> scanner" where
  "stopOpenMHz s =
     (let s1 = (case pollTimer s of
                  None \<Rightarrow> s
                | Some h \<Rightarrow>
                    if h = 0 then s
                    else s\<lparr> intervals := removeAll h (intervals s), pollTimer := None \<rparr>)
      in s1\<lparr> callQueue := [] \<rparr>)"

definition resetAudio :: "scanner \<Rightarrow> scanner" where
  "resetAudio s = audio_load ((audio_pause (stopOpenMHz s))\<lparr> audioSrc := None \<rparr>)"

text \<open>
  \<open>playNextCall\<close>. Its \<open>play().catch\<close> handler and the timeout it sets are events of the
  step function below.
\<close>

function playNextCall :: "scanner \<Rightarrow> scanner completion" where
  "playNextCall s =
     (case callQueue s of
        [] \<Rightarrow> Normal (setStatus LISTENING s)
      | c # rest \<Rightarrow>
          (let s1 = s\<lparr> callQueue := rest \<rparr>;
               audioUrl = js_or (call_url c) (filename c)
           in if \<not> truthy audioUrl then playNextCall s1
              else (case currentFeed s1 of
                      None \<Rightarrow> Threw s1
                    | Some f \<Rightarrow>
                        Normal (audio_play (audio_load
                          ((setStatus (desc f) s1)\<lparr> audioSrc := audioUrl \<rparr>))))))"
  by pat_completeness auto
termination
  by (relation "measure (\<lambda>s. length (callQueue s))") auto

declare playNextCall.simps [simp del]

text \<open>
  \<open>fetchCalls\<close> runs in two parts. Up to \<open>await fetch(apiUrl)\<close> it either returns (the
  guard) or sends a request; \<open>Math.floor(this.lastCallTime)\<close> is the \<open>time\<close> parameter
  (\<open>Math.floor(null)\<close> is 0).
\<close>

definition js_floor :: "jsnum option \<Rightarrow> jsnum" where
  "js_floor v = (case v of None \<Rightarrow> Num 0 | Some x \<Rightarrow> x)"

definition fetch_request :: "bool \<Rightarrow> scanner \<Rightarrow> request option" where
  "fetch_request aw s =
     (case currentFeed s of
        None \<Rightarrow> None
      | Some f \<Rightarrow>
          if ftype f \<noteq> OpenMHz then None
          else Some \<lparr> req_system = system f, req_time = js_floor (lastCallTime s),
                      awaited = aw \<rparr>)"

text \<open>
  The rest of \<open>fetchCalls\<close> runs when the request completes, on the state of that moment.
  A completed request was rejected, answered with a status that is not \<open>ok\<close>, answered
  with a body that is not JSON, or answered with JSON whose \<open>calls\<close> is an array or absent.
\<close>

datatype response = Rejected | NotOk nat | BadJson | Json "call list option"

text \<open>Lines 236 to 244: the batch is filtered and pushed, the watermark updated.\<close>

definition enqueue_batch :: "call list \<Rightarrow> scanner \<Rightarrow> scanner" where
  "enqueue_batch calls s =
     (let newCalls = filter (\<lambda>c. len c > 1) calls;
          s1 = s\<lparr> callQueue := callQueue s @ newCalls \<rparr>;
          newest = last calls
      in case time newest of
           NoTime \<Rightarrow> s1
         | InvalidTime \<Rightarrow> s1\<lparr> lastCallTime := Some NaN \<rparr>
         | TimeMs t \<Rightarrow> s1\<lparr> lastCallTime := Some (Num (t + 1)) \<rparr>)"

definition fetchCalls_resume :: "response \<Rightarrow> scanner \<Rightarrow> scanner" where
  "fetchCalls_resume r s =
     (case r of
        Json body \<Rightarrow>
          (let calls = (case body of None \<Rightarrow> [] | Some cs \<Rightarrow> cs);
               s1 = (if length calls > 0 then enqueue_batch calls s else s)
           in case (if isPlaying s1 \<and> (audioPaused s1 \<or> audioEnded s1)
                    then playNextCall s1 else Normal s1) of
                Threw s2 \<Rightarrow> setStatus LISTENING s2
              | Normal s2 \<Rightarrow>
                  if callQueue s2 = [] \<and> audioPaused s2 then setStatus LISTENING s2 else s2)
      | _ \<Rightarrow> setStatus LISTENING s)"

text \<open>
  \<open>startOpenMHz\<close> up to its \<open>await\<close>. When \<open>fetchCalls\<close> returns at its guard the interval
  is installed at once; otherwise when the awaited request completes.
\<close>

definition startOpenMHz :: "int \<Rightarrow> scanner \<Rightarrow> scanner" where
  "startOpenMHz now s =
     (let s1 = s\<lparr> callQueue := [], lastCallTime := Some (Num (now - 120000)) \<rparr>;
          s2 = setStatus ''Connecting...'' s1;
          s3 = setVisualizerActive True (s2\<lparr> liveHidden := False, panelActive := True \<rparr>)
      in case fetch_request True s3 of
           None \<Rightarrow> install_interval s3
         | Some rq \<Rightarrow> s3\<lparr> requests := requests s3 @ [rq] \<rparr>)"

text \<open>The callback of the interval: \<open>() => this.fetchCalls()\<close>.\<close>

definition poll :: "scanner \<Rightarrow> scanner" where
  "poll s =
     (case fetch_request False s of
        None \<Rightarrow> s
      | Some rq \<Rightarrow> s\<lparr> requests := requests s @ [rq] \<rparr>)"

text \<open>A request completes: the rest of \<open>fetchCalls\<close>, then of \<open>startOpenMHz\<close> if it waits.\<close>

definition complete_request :: "nat \<Rightarrow> response \<Rightarrow> scanner \<Rightarrow> scanner" where
  "complete_request k r s =
     (if k < length (requests s) then
        let rq = requests s ! k;
            s1 = s\<lparr> requests := take k (requests s) @ drop (Suc k) (requests s) \<rparr>;
            s2 = fetchCalls_resume r s1
        in if awaited rq then install_interval s2 else s2
      else s)"

text \<open>\<open>onFeedChange\<close>, with \<open>parseInt(this.select.value)\<close> and \<open>Date.now()\<close> as inputs.\<close>

definition onFeedChange :: "jsnum \<Rightarrow> int \<Rightarrow> scanner \<Rightarrow> scanner completion" where
  "onFeedChange idx now s =
     (let s1 = resetAudio s;
          s2 = s1\<lparr> currentFeed := js_index SCANNER_FEEDS idx, playBtnDisabled := False \<rparr>
      in case currentFeed s2 of
           None \<Rightarrow> Threw s2
         | Some f \<Rightarrow>
             (let s3 = setStatus (desc f) s2;
                  s4 = (if ftype f = OpenMHz then startOpenMHz now s3
                        else audio_play (audio_load (s3\<lparr> audioSrc := url f \<rparr>)))
              in Normal (s4\<lparr> isPlaying := True, playBtnPlaying := True \<rparr>)))"

definition togglePlay :: "int \<Rightarrow> scanner \<Rightarrow> scanner" where
  "togglePlay now s =
     (case currentFeed s of
        None \<Rightarrow> s
      | Some f \<Rightarrow>
          if isPlaying s then
            (let s1 = (if ftype f = OpenMHz then stopOpenMHz s else s);
                 s2 = audio_pause s1;
                 s3 = s2\<lparr> isPlaying := False, playBtnPlaying := False, panelActive := False,
                          liveHidden := True \<rparr>
             in setVisualizerActive False s3)
          else
            (let s1 = s\<lparr> isPlaying := True, playBtnPlaying := True \<rparr>
             in if ftype f = OpenMHz then startOpenMHz now s1
                else audio_play (audio_load
                       ((audio_load (s1\<lparr> audioSrc := None \<rparr>))\<lparr> audioSrc := url f \<rparr>))))"

definition onVolume :: "int \<Rightarrow> scanner \<Rightarrow> scanner" where
  "onVolume v s = s\<lparr> volume := real_of_int v / 100 \<rparr>"

text \<open>The listeners of the audio element.\<close>

definition onAudioPlaying :: "scanner \<Rightarrow> scanner" where
  "onAudioPlaying s = setVisualizerActive True (s\<lparr> liveHidden := False, panelActive := True \<rparr>)"

definition onAudioWaiting :: "scanner \<Rightarrow> scanner" where
  "onAudioWaiting s = setStatus ''Buffering...'' s"

definition openmhz_feed :: "scanner \<Rightarrow> bool" where
  "openmhz_feed s = (case currentFeed s of None \<Rightarrow> False | Some f \<Rightarrow> ftype f = OpenMHz)"

definition onAudioError :: "scanner \<Rightarrow> scanner completion" where
  "onAudioError s =
     (if openmhz_feed s then playNextCall s
      else
        let s1 = setStatus UNAVAILABLE s;
            s2 = setVisualizerActive False (s1\<lparr> liveHidden := True, panelActive := False \<rparr>)
        in Normal (s2\<lparr> isPlaying := False, playBtnPlaying := False \<rparr>))"

definition onAudioPause :: "scanner \<Rightarrow> scanner" where
  "onAudioPause s =
     (if openmhz_feed s \<and> isPlaying s then s
      else setVisualizerActive False (s\<lparr> panelActive := False, liveHidden := True \<rparr>))"

definition onAudioEnded :: "scanner \<Rightarrow> scanner completion" where
  "onAudioEnded s = (if openmhz_feed s \<and> isPlaying s then playNextCall s else Normal s)"

text \<open>
  Everything that can happen to the controller, one event at a time: the user's actions,
  the events of the audio element (which arrive with the element in the matching state),
  an interval firing, a request completing, the promise of \<open>play()\<close> in \<open>playNextCall\<close>
  rejecting (which sets the 300 ms timeout) and that timeout firing.
\<close>

datatype event =
    FeedChange jsnum int
  | TogglePlay int
  | VolumeInput int
  | AudioPlaying
  | AudioWaiting
  | AudioError
  | AudioPause
  | AudioEnded
  | Tick nat
  | Completed nat response
  | PlayRejected
  | RetryTimeout

fun step :: "scanner \<Rightarrow> event \<Rightarrow> scanner" where
  "step s (FeedChange idx now) = final (onFeedChange idx now s)"
| "step s (TogglePlay now) = togglePlay now s"
| "step s (VolumeInput v) = onVolume v s"
| "step s AudioPlaying = onAudioPlaying (s\<lparr> audioPaused := False, audioEnded := False \<rparr>)"
| "step s AudioWaiting = onAudioWaiting s"
| "step s AudioError = final (onAudioError s)"
| "step s AudioPause = onAudioPause (s\<lparr> audioPaused := True \<rparr>)"
| "step s AudioEnded = final (onAudioEnded (s\<lparr> audioEnded := True \<rparr>))"
| "step s (Tick h) = (if h \<in> set (intervals s) then poll s else s)"
| "step s (Completed k r) = complete_request k r s"
| "step s PlayRejected = s\<lparr> retries := Suc (retries s) \<rparr>"
| "step s RetryTimeout =
     (if retries s = 0 then s else final (playNextCall (s\<lparr> retries := retries s - 1 \<rparr>)))"

definition run :: "scanner \<Rightarrow> event list \<Rightarrow> scanner" where
  "run s evs = foldl step s evs"

section \<open>Properties of the shuffle generator\<close>














section \<open>Properties of the shuffle cursor\<close>

subsection \<open>The cursor stays in range\<close>




















subsection \<open>A pass over the playlist\<close>










section \<open>Properties of the Scanner Controller\<close>

subsection \<open>Playing the next call\<close>

lemma playNextCall_Nil: "callQueue s = [] \<Longrightarrow> playNextCall s = Normal (setStatus LISTENING s)"
  by (subst playNextCall.simps) simp

lemma playNextCall_Cons:
  "callQueue s = c # rest \<Longrightarrow>
   playNextCall s =
     (if \<not> truthy (js_or (call_url c) (filename c)) then playNextCall (s\<lparr> callQueue := rest \<rparr>)
      else (case currentFeed s of
              None \<Rightarrow> Threw (s\<lparr> callQueue := rest \<rparr>)
            | Some f \<Rightarrow>
                Normal (audio_play (audio_load
                  ((setStatus (desc f) (s\<lparr> callQueue := rest \<rparr>))
                     \<lparr> audioSrc := js_or (call_url c) (filename c) \<rparr>)))))"
  by (subst playNextCall.simps) (simp add: Let_def)

text \<open>What \<open>playNextCall\<close> and the audio calls leave alone.\<close>

definition same_control :: "scanner \<Rightarrow> scanner \<Rightarrow> bool" where
  "same_control s s' =
     (isPlaying s' = isPlaying s \<and> currentFeed s' = currentFeed s
      \<and> pollTimer s' = pollTimer s \<and> lastCallTime s' = lastCallTime s
      \<and> liveHidden s' = liveHidden s \<and> panelActive s' = panelActive s
      \<and> vizActive s' = vizActive s \<and> playBtnPlaying s' = playBtnPlaying s
      \<and> playBtnDisabled s' = playBtnDisabled s \<and> volume s' = volume s
      \<and> intervals s' = intervals s \<and> nextHandle s' = nextHandle s
      \<and> requests s' = requests s \<and> retries s' = retries s)"

definition no_audio :: "call \<Rightarrow> bool" where
  "no_audio c = (\<not> truthy (js_or (call_url c) (filename c)))"

lemma playNextCall_same_control: "same_control s (final (playNextCall s))"
proof (induction s rule: playNextCall.induct)
  case (1 s)
  show ?case
  proof (cases "callQueue s")
    case Nil
    then show ?thesis by (simp add: playNextCall_Nil same_control_def setStatus_def)
  next
    case (Cons c rest)
    show ?thesis
    proof (cases "truthy (js_or (call_url c) (filename c))")
      case True
      then show ?thesis
        using Cons
        by (cases "currentFeed s")
          (simp_all add: playNextCall_Cons same_control_def setStatus_def audio_load_def
            audio_play_def)
    next
      case False
      then have "same_control (s\<lparr> callQueue := rest \<rparr>) (final (playNextCall (s\<lparr> callQueue := rest \<rparr>)))"
        using "1.IH" [OF Cons refl refl] by simp
      then show ?thesis
        using Cons False by (simp add: playNextCall_Cons same_control_def)
    qed
  qed
qed

lemma playNextCall_queue:
  "callQueue (final (playNextCall s)) = drop 1 (dropWhile no_audio (callQueue s))"
proof (induction s rule: playNextCall.induct)
  case (1 s)
  show ?case
  proof (cases "callQueue s")
    case Nil
    then show ?thesis by (simp add: playNextCall_Nil setStatus_def)
  next
    case (Cons c rest)
    show ?thesis
    proof (cases "truthy (js_or (call_url c) (filename c))")
      case True
      then show ?thesis
        using Cons
        by (cases "currentFeed s")
          (simp_all add: playNextCall_Cons no_audio_def setStatus_def audio_load_def
            audio_play_def)
    next
      case False
      then have na: "no_audio c" by (simp add: no_audio_def)
      have "callQueue (final (playNextCall (s\<lparr> callQueue := rest \<rparr>)))
                 = drop 1 (dropWhile no_audio rest)"
        using "1.IH" [OF Cons refl refl] False by simp
      then show ?thesis
        using Cons False na by (simp add: playNextCall_Cons)
    qed
  qed
qed

lemma playNextCall_plays:
  assumes "dropWhile no_audio (callQueue s) = c # rest" and "currentFeed s = Some f"
  shows "playNextCall s = Normal (audio_play (audio_load
           ((setStatus (desc f) (s\<lparr> callQueue := rest \<rparr>))
              \<lparr> audioSrc := js_or (call_url c) (filename c) \<rparr>)))"
  using assms
proof (induction s rule: playNextCall.induct)
  case (1 s)
  show ?case
  proof (cases "callQueue s")
    case Nil
    then show ?thesis using "1.prems" by simp
  next
    case (Cons d ds)
    show ?thesis
    proof (cases "truthy (js_or (call_url d) (filename d))")
      case True
      then show ?thesis
        using Cons "1.prems" by (simp add: playNextCall_Cons no_audio_def)
    next
      case False
      have "playNextCall (s\<lparr> callQueue := ds \<rparr>) = Normal (audio_play (audio_load
           ((setStatus (desc f) (s\<lparr> callQueue := ds, callQueue := rest \<rparr>))
              \<lparr> audioSrc := js_or (call_url c) (filename c) \<rparr>)))"
        using "1.IH" [OF Cons refl refl] False Cons "1.prems" by (simp add: no_audio_def)
      then show ?thesis
        using Cons False by (simp add: playNextCall_Cons)
    qed
  qed
qed

lemma playNextCall_exhausts:
  assumes "dropWhile no_audio (callQueue s) = []"
  shows "playNextCall s = Normal (setStatus LISTENING (s\<lparr> callQueue := [] \<rparr>))"
  using assms
proof (induction s rule: playNextCall.induct)
  case (1 s)
  show ?case
  proof (cases "callQueue s")
    case Nil
    then have eq: "s\<lparr> callQueue := [] \<rparr> = s" by simp
    show ?thesis by (simp only: playNextCall_Nil [OF Nil] eq)
  next
    case (Cons d ds)
    then have na: "no_audio d" and rest: "dropWhile no_audio ds = []"
      using "1.prems" by (auto split: if_splits)
    have "playNextCall (s\<lparr> callQueue := ds \<rparr>)
          = Normal (setStatus LISTENING (s\<lparr> callQueue := ds, callQueue := [] \<rparr>))"
      using "1.IH" [OF Cons refl refl] na rest by (simp add: no_audio_def)
    then show ?thesis
      using Cons na by (simp add: playNextCall_Cons no_audio_def)
  qed
qed

subsection \<open>Errors of the audio element\<close>

lemmas ui_defs = setStatus_def setVisualizerActive_def audio_pause_def audio_load_def
  audio_play_def

definition queue_feed :: feed where
  "queue_feed = SCANNER_FEEDS ! 0"

definition stream_feed :: feed where
  "stream_feed = \<lparr> city = ''Austin'', state = ''TX'', desc = ''Police'', ftype = Stream,
                    system = None, url = Some ''https://example.org/austin.mp3'' \<rparr>"

definition clip :: "real \<Rightarrow> calltime \<Rightarrow> call" where
  "clip d t = \<lparr> call_url = Some ''https://example.org/clip.m4a'', filename = None,
                len = d, time = t \<rparr>"

definition silent :: "real \<Rightarrow> calltime \<Rightarrow> call" where
  "silent d t = \<lparr> call_url = None, filename = None, len = d, time = t \<rparr>"

text \<open>A call-queue feed playing, live, with two calls queued; a stream playing, live.\<close>

definition queue_playing :: scanner where
  "queue_playing =
     (scanner_init 50)\<lparr> isPlaying := True, currentFeed := Some queue_feed,
       callQueue := [silent 3 NoTime, clip 4 (TimeMs 1000), clip 6 (TimeMs 2000)],
       pollTimer := Some 1, intervals := [1], nextHandle := 2,
       lastCallTime := Some (Num 2001), liveHidden := False, panelActive := True,
       vizActive := True, playBtnPlaying := True, playBtnDisabled := False,
       audioPaused := False \<rparr>"

definition stream_playing :: scanner where
  "stream_playing =
     (scanner_init 50)\<lparr> isPlaying := True, currentFeed := Some stream_feed,
       liveHidden := False, panelActive := True, vizActive := True, playBtnPlaying := True,
       playBtnDisabled := False, audioSrc := url stream_feed, audioPaused := False \<rparr>"

text \<open>
  Claim C6. When the audio element emits an error and the current feed is a call-queue
  feed, the handler is \<open>playNextCall\<close>: the next queued call that has an audio reference
  becomes the source and is played (the calls before it are dropped), or the queue is
  exhausted and the status is the listening message; the live badge, the active classes,
  \<open>isPlaying\<close> and the button are left as they were. When the current feed is a direct
  stream, the status becomes the unavailable message, \<open>isPlaying\<close> becomes false, the live
  badge is hidden and the active classes are removed.
\<close>

theorem audio_error_handling:
  assumes "currentFeed s = Some f" and "s' = step s AudioError"
  shows "(ftype f = OpenMHz \<longrightarrow>
            onAudioError s = playNextCall s
          \<and> liveHidden s' = liveHidden s \<and> panelActive s' = panelActive s
          \<and> vizActive s' = vizActive s \<and> isPlaying s' = isPlaying s
          \<and> playBtnPlaying s' = playBtnPlaying s
          \<and> (case dropWhile no_audio (callQueue s) of
                [] \<Rightarrow> callQueue s' = [] \<and> statusText s' = LISTENING \<and> audioSrc s' = audioSrc s
              | c # rest \<Rightarrow>
                  callQueue s' = rest \<and> audioSrc s' = js_or (call_url c) (filename c)
                  \<and> truthy (audioSrc s') \<and> \<not> audioPaused s' \<and> statusText s' = desc f))
       \<and> (ftype f = Stream \<longrightarrow>
            statusText s' = UNAVAILABLE \<and> \<not> isPlaying s' \<and> liveHidden s'
          \<and> \<not> panelActive s' \<and> \<not> vizActive s' \<and> \<not> playBtnPlaying s')"
proof (cases "ftype f")
  case Stream
  then show ?thesis
    using assms by (simp add: onAudioError_def openmhz_feed_def Let_def ui_defs)
next
  case OpenMHz
  then have err: "onAudioError s = playNextCall s"
    using assms(1) by (simp add: onAudioError_def openmhz_feed_def)
  then have s': "s' = final (playNextCall s)"
    using assms(2) by simp
  have "same_control s s'"
    unfolding s' by (rule playNextCall_same_control)
  then have keep: "liveHidden s' = liveHidden s" "panelActive s' = panelActive s"
    "vizActive s' = vizActive s" "isPlaying s' = isPlaying s"
    "playBtnPlaying s' = playBtnPlaying s"
    by (simp_all add: same_control_def)
  have "case dropWhile no_audio (callQueue s) of
          [] \<Rightarrow> callQueue s' = [] \<and> statusText s' = LISTENING \<and> audioSrc s' = audioSrc s
        | c # rest \<Rightarrow>
            callQueue s' = rest \<and> audioSrc s' = js_or (call_url c) (filename c)
            \<and> truthy (audioSrc s') \<and> \<not> audioPaused s' \<and> statusText s' = desc f"
  proof (cases "dropWhile no_audio (callQueue s)")
    case Nil
    show ?thesis
      unfolding s' by (simp only: Nil list.case) (simp add: playNextCall_exhausts [OF Nil] ui_defs)
  next
    case (Cons c rest)
    then have "\<not> no_audio c"
      by (metis dropWhile_eq_Cons_conv)
    then show ?thesis
      unfolding s'
      by (simp only: Cons list.case)
        (simp add: playNextCall_plays [OF Cons assms(1)] ui_defs no_audio_def)
  qed
  then show ?thesis
    using OpenMHz err keep by simp
qed

theorem audio_error_handling_witness:
  "currentFeed queue_playing = Some queue_feed \<and> ftype queue_feed = OpenMHz
   \<and> audioSrc (step queue_playing AudioError) = Some ''https://example.org/clip.m4a''
   \<and> callQueue (step queue_playing AudioError) = [clip 6 (TimeMs 2000)]
   \<and> panelActive (step queue_playing AudioError) \<and> \<not> liveHidden (step queue_playing AudioError)
   \<and> isPlaying (step queue_playing AudioError)
   \<and> currentFeed stream_playing = Some stream_feed \<and> ftype stream_feed = Stream
   \<and> statusText (step stream_playing AudioError) = UNAVAILABLE
   \<and> \<not> isPlaying (step stream_playing AudioError) \<and> liveHidden (step stream_playing AudioError)"
proof -
  have q: "currentFeed queue_playing = Some queue_feed" "ftype queue_feed = OpenMHz"
    by (simp_all add: queue_playing_def queue_feed_def SCANNER_FEEDS_def)
  have st: "currentFeed stream_playing = Some stream_feed" "ftype stream_feed = Stream"
    by (simp_all add: stream_playing_def stream_feed_def)
  have dq: "dropWhile no_audio (callQueue queue_playing)
            = [clip 4 (TimeMs 1000), clip 6 (TimeMs 2000)]"
    by (simp add: queue_playing_def no_audio_def silent_def clip_def js_or_def truthy_def)
  have flags: "panelActive queue_playing" "\<not> liveHidden queue_playing" "isPlaying queue_playing"
    by (simp_all add: queue_playing_def)
  have "js_or (call_url (clip 4 (TimeMs 1000))) (filename (clip 4 (TimeMs 1000)))
        = Some ''https://example.org/clip.m4a''"
    by (simp add: clip_def js_or_def truthy_def)
  then show ?thesis
    using audio_error_handling [OF q(1) refl] audio_error_handling [OF st(1) refl] q st dq flags
    by (simp del: step.simps)
qed

subsection \<open>Toggling twice\<close>

lemma togglePlay_currentFeed: "currentFeed (togglePlay now s) = currentFeed s"
  by (simp add: togglePlay_def startOpenMHz_def stopOpenMHz_def install_interval_def Let_def
      ui_defs split: option.splits)

lemma togglePlay_stop:
  assumes "currentFeed s = Some f" and "isPlaying s"
  shows "\<not> isPlaying (togglePlay now s) \<and> \<not> panelActive (togglePlay now s)
       \<and> liveHidden (togglePlay now s) \<and> \<not> vizActive (togglePlay now s)
       \<and> \<not> playBtnPlaying (togglePlay now s)"
  using assms by (simp add: togglePlay_def Let_def ui_defs)

lemma togglePlay_start:
  assumes "currentFeed s = Some f" and "\<not> isPlaying s"
  shows "isPlaying (togglePlay now s) \<and> playBtnPlaying (togglePlay now s)
       \<and> panelActive (togglePlay now s) = (ftype f = OpenMHz \<or> panelActive s)
       \<and> liveHidden (togglePlay now s) = (ftype f \<noteq> OpenMHz \<and> liveHidden s)
       \<and> vizActive (togglePlay now s) = (ftype f = OpenMHz \<or> vizActive s)"
  using assms
  by (simp add: togglePlay_def startOpenMHz_def install_interval_def Let_def ui_defs
      split: option.splits)

text \<open>
  Claim C7, as the code has it. For every state with a selected feed, two calls of
  \<open>togglePlay\<close> in succession restore \<open>isPlaying\<close> (and the \<open>playing\<close> class of the
  button follows it). The active UI state they leave is active exactly when the controller
  was playing a call-queue feed: it is the original one when that is how the original was
  (as after a feed selection or a toggle of a call-queue feed, or for a stopped, inactive
  controller); a direct stream that was playing comes back with the panel inactive and the
  badge hidden, which only the element's \<open>playing\<close> event sets again.
\<close>

theorem togglePlay_twice:
  assumes "currentFeed s = Some f" and "s' = togglePlay t2 (togglePlay t1 s)"
  shows "isPlaying s' = isPlaying s
       \<and> playBtnPlaying s' = isPlaying s
       \<and> panelActive s' = (isPlaying s \<and> ftype f = OpenMHz)
       \<and> liveHidden s' = (\<not> (isPlaying s \<and> ftype f = OpenMHz))
       \<and> vizActive s' = (isPlaying s \<and> ftype f = OpenMHz)
       \<and> (panelActive s = (isPlaying s \<and> ftype f = OpenMHz)
            \<and> vizActive s = panelActive s \<and> liveHidden s = (\<not> panelActive s) \<longrightarrow>
          panelActive s' = panelActive s \<and> liveHidden s' = liveHidden s
          \<and> vizActive s' = vizActive s)"
proof (cases "isPlaying s")
  case True
  let ?m = "togglePlay t1 s"
  have m: "currentFeed ?m = Some f" "\<not> isPlaying ?m" "\<not> panelActive ?m" "liveHidden ?m"
    "\<not> vizActive ?m"
    using togglePlay_stop [OF assms(1) True, of t1] assms(1)
    by (simp_all add: togglePlay_currentFeed)
  show ?thesis
    using togglePlay_start [OF m(1,2), of t2] m True assms(2) by auto
next
  case False
  let ?m = "togglePlay t1 s"
  have m: "currentFeed ?m = Some f" "isPlaying ?m"
    using togglePlay_start [OF assms(1) False, of t1] assms(1)
    by (simp_all add: togglePlay_currentFeed)
  show ?thesis
    using togglePlay_stop [OF m, of t2] False assms(2) by auto
qed

theorem togglePlay_twice_witness:
  "currentFeed queue_playing = Some queue_feed
   \<and> isPlaying queue_playing \<and> panelActive queue_playing \<and> \<not> liveHidden queue_playing
   \<and> isPlaying (togglePlay 1006000 (togglePlay 1005000 queue_playing))
   \<and> panelActive (togglePlay 1006000 (togglePlay 1005000 queue_playing))
   \<and> \<not> liveHidden (togglePlay 1006000 (togglePlay 1005000 queue_playing))
   \<and> vizActive (togglePlay 1006000 (togglePlay 1005000 queue_playing))"
proof -
  have q: "currentFeed queue_playing = Some queue_feed" "ftype queue_feed = OpenMHz"
    "isPlaying queue_playing" "panelActive queue_playing" "\<not> liveHidden queue_playing"
    by (simp_all add: queue_playing_def queue_feed_def SCANNER_FEEDS_def)
  show ?thesis
    using togglePlay_twice [OF q(1) refl, of 1006000 1005000] q by simp
qed

text \<open>
  The claim as stated fails. A direct stream that is playing and live is stopped by the
  first call; the second sets \<open>isPlaying\<close> and reloads the stream but does not touch the
  panel, the badge or the visualizer. For the bundled call-queue feeds: a call is playing,
  the user stops, and the element's \<open>playing\<close> event for that call is delivered after the
  click; two more clicks then leave the panel inactive.
\<close>

definition late_playing :: scanner where
  "late_playing =
     run (scanner_init 50)
       [FeedChange (Num 0) 1000000, Completed 0 (Json (Some [clip 4 (TimeMs 990000)])),
        TogglePlay 1004000, AudioPlaying]"

lemmas scanner_defs = scanner_init_def onFeedChange_def resetAudio_def stopOpenMHz_def
  startOpenMHz_def fetch_request_def js_floor_def complete_request_def fetchCalls_resume_def
  enqueue_batch_def install_interval_def poll_def togglePlay_def onAudioPlaying_def
  SCANNER_FEEDS_def LISTENING_def Let_def ui_defs

lemma late_playing_fields:
  "currentFeed late_playing = Some queue_feed" "\<not> isPlaying late_playing"
  "panelActive late_playing" "\<not> liveHidden late_playing" "vizActive late_playing"
  by (simp_all add: late_playing_def run_def queue_feed_def clip_def scanner_defs
      playNextCall_Cons js_or_def truthy_def)

theorem togglePlay_twice_counterexample:
  "currentFeed stream_playing \<noteq> None \<and> panelActive stream_playing
   \<and> \<not> liveHidden stream_playing \<and> vizActive stream_playing
   \<and> \<not> panelActive (togglePlay 1006000 (togglePlay 1005000 stream_playing))
   \<and> liveHidden (togglePlay 1006000 (togglePlay 1005000 stream_playing))
   \<and> \<not> vizActive (togglePlay 1006000 (togglePlay 1005000 stream_playing))
   \<and> currentFeed late_playing \<noteq> None \<and> panelActive late_playing
   \<and> \<not> panelActive (togglePlay 1006000 (togglePlay 1005000 late_playing))"
proof -
  have st: "currentFeed stream_playing = Some stream_feed" "ftype stream_feed = Stream"
    "isPlaying stream_playing" "panelActive stream_playing" "\<not> liveHidden stream_playing"
    "vizActive stream_playing"
    by (simp_all add: stream_playing_def stream_feed_def)
  have a: "\<not> panelActive (togglePlay 1006000 (togglePlay 1005000 stream_playing))
        \<and> liveHidden (togglePlay 1006000 (togglePlay 1005000 stream_playing))
        \<and> \<not> vizActive (togglePlay 1006000 (togglePlay 1005000 stream_playing))"
    using st by (simp add: togglePlay_def Let_def ui_defs)
  have b: "\<not> panelActive (togglePlay 1006000 (togglePlay 1005000 late_playing))"
    using late_playing_fields
    by (simp add: togglePlay_def startOpenMHz_def stopOpenMHz_def fetch_request_def
        queue_feed_def SCANNER_FEEDS_def Let_def ui_defs split: option.splits)
  show ?thesis
    using st a b late_playing_fields by simp
qed

subsection \<open>What the handlers leave of the page\<close>

definition same_page :: "scanner \<Rightarrow> scanner \<Rightarrow> bool" where
  "same_page s s' =
     (isPlaying s' = isPlaying s \<and> currentFeed s' = currentFeed s
      \<and> liveHidden s' = liveHidden s \<and> panelActive s' = panelActive s
      \<and> vizActive s' = vizActive s \<and> playBtnPlaying s' = playBtnPlaying s)"



lemma enqueue_batch_same_page: "same_page s (enqueue_batch calls s)"
  by (simp add: enqueue_batch_def same_page_def Let_def split: calltime.splits)



text \<open>The three stages of \<open>fetchCalls\<close> after a parsed response.\<close>

definition after_batch :: "call list option \<Rightarrow> scanner \<Rightarrow> scanner" where
  "after_batch body s =
     (let calls = (case body of None \<Rightarrow> [] | Some cs \<Rightarrow> cs)
      in if length calls > 0 then enqueue_batch calls s else s)"

definition idle_play :: "scanner \<Rightarrow> scanner completion" where
  "idle_play s =
     (if isPlaying s \<and> (audioPaused s \<or> audioEnded s) then playNextCall s else Normal s)"

definition settle :: "scanner completion \<Rightarrow> scanner" where
  "settle c =
     (case c of
        Threw s \<Rightarrow> setStatus LISTENING s
      | Normal s \<Rightarrow> if callQueue s = [] \<and> audioPaused s then setStatus LISTENING s else s)"

lemma fetchCalls_resume_Json:
  "fetchCalls_resume (Json body) s = settle (idle_play (after_batch body s))"
  by (simp add: fetchCalls_resume_def after_batch_def idle_play_def settle_def Let_def)

lemma fetchCalls_resume_failed:
  "r = Rejected \<or> r = NotOk st \<or> r = BadJson \<Longrightarrow> fetchCalls_resume r s = setStatus LISTENING s"
  by (auto simp: fetchCalls_resume_def)

lemma after_batch_same_page: "same_page s (after_batch body s)"
  by (simp add: after_batch_def Let_def enqueue_batch_same_page) (simp add: same_page_def)

lemma idle_play_same_control: "same_control s (final (idle_play s))"
  by (simp add: idle_play_def playNextCall_same_control) (simp add: same_control_def)

lemma settle_same_control: "same_control (final c) (settle c)"
  by (cases c) (simp_all add: settle_def same_control_def setStatus_def)




subsection \<open>Pauses between calls\<close>




subsection \<open>A poll that fails\<close>

text \<open>
  Claim C9. If a poll fails (the request is rejected, the response is not \<open>ok\<close>, or its
  body is not JSON), \<open>fetchCalls\<close> leaves the call queue and \<open>lastCallTime\<close> as they were,
  both when it sends the request and when the failure arrives; it only sets the status to
  the listening message. The timers are not touched: every interval that was active stays
  active, and when the failed request was the one \<open>startOpenMHz\<close> awaits, the polling
  interval is installed all the same.
\<close>

theorem failed_poll_keeps_queue_and_watermark:
  assumes "r = Rejected \<or> r = NotOk st \<or> r = BadJson"
  shows "callQueue (fetchCalls_resume r s) = callQueue s
       \<and> lastCallTime (fetchCalls_resume r s) = lastCallTime s
       \<and> pollTimer (fetchCalls_resume r s) = pollTimer s
       \<and> intervals (fetchCalls_resume r s) = intervals s
       \<and> statusText (fetchCalls_resume r s) = LISTENING
       \<and> callQueue (poll s) = callQueue s \<and> lastCallTime (poll s) = lastCallTime s
       \<and> pollTimer (poll s) = pollTimer s \<and> intervals (poll s) = intervals s
       \<and> (k < length (requests s) \<longrightarrow>
            callQueue (step s (Completed k r)) = callQueue s
          \<and> lastCallTime (step s (Completed k r)) = lastCallTime s
          \<and> (if awaited (requests s ! k)
              then pollTimer (step s (Completed k r)) = Some (nextHandle s)
                 \<and> intervals (step s (Completed k r)) = intervals s @ [nextHandle s]
              else pollTimer (step s (Completed k r)) = pollTimer s
                 \<and> intervals (step s (Completed k r)) = intervals s)
          \<and> (\<forall>h. h \<in> set (intervals s) \<longrightarrow> h \<in> set (intervals (step s (Completed k r)))))"
proof -
  have fail: "fetchCalls_resume r t = setStatus LISTENING t" for t
    using assms by (rule fetchCalls_resume_failed)
  have "callQueue (poll s) = callQueue s \<and> lastCallTime (poll s) = lastCallTime s
      \<and> pollTimer (poll s) = pollTimer s \<and> intervals (poll s) = intervals s"
    by (simp add: poll_def split: option.splits)
  then show ?thesis
    by (simp add: fail complete_request_def Let_def setStatus_def install_interval_def)
qed

text \<open>A call-queue feed polling: its first request is out, an interval request too.\<close>

definition polling :: scanner where
  "polling = run (scanner_init 50) [FeedChange (Num 0) 1000000, Completed 0 (Json (Some [])), Tick 1]"

lemma polling_fields:
  "callQueue polling = []" "lastCallTime polling = Some (Num 880000)"
  "pollTimer polling = Some 1" "intervals polling = [1]" "isPlaying polling"
  "currentFeed polling = Some queue_feed" "audioPaused polling"
  "requests polling = [\<lparr> req_system = Some ''ntirnd1'', req_time = Num 880000, awaited = False \<rparr>]"
  by (simp_all add: polling_def run_def queue_feed_def scanner_defs playNextCall_Nil)

theorem failed_poll_keeps_queue_and_watermark_witness:
  "(0::nat) < length (requests polling)
   \<and> callQueue (step polling (Completed 0 (NotOk 503))) = []
   \<and> lastCallTime (step polling (Completed 0 (NotOk 503))) = Some (Num 880000)
   \<and> pollTimer (step polling (Completed 0 (NotOk 503))) = Some 1
   \<and> intervals (step polling (Completed 0 (NotOk 503))) = [1]"
proof -
  have "NotOk 503 = Rejected \<or> NotOk 503 = NotOk 503 \<or> NotOk 503 = BadJson"
    by simp
  from failed_poll_keeps_queue_and_watermark [OF this, of polling 0] show ?thesis
    by (simp add: polling_fields del: step.simps)
qed

subsection \<open>The watermark\<close>





lemma enqueue_batch_lastCallTime:
  "lastCallTime (enqueue_batch calls s) =
     (case time (last calls) of
        NoTime \<Rightarrow> lastCallTime s
      | InvalidTime \<Rightarrow> Some NaN
      | TimeMs t \<Rightarrow> Some (Num (t + 1)))"
  by (simp add: enqueue_batch_def Let_def split: calltime.splits)

lemma fetchCalls_resume_lastCallTime:
  "lastCallTime (fetchCalls_resume (Json body) s) = lastCallTime (after_batch body s)"
  using idle_play_same_control [of "after_batch body s"]
    settle_same_control [of "idle_play (after_batch body s)"]
  by (simp add: fetchCalls_resume_Json same_control_def)








subsection \<open>The call queue\<close>

definition long_call :: "call \<Rightarrow> bool" where
  "long_call c = (len c > 1)"

lemma enqueue_batch_queue:
  "callQueue (enqueue_batch calls s) = callQueue s @ filter (\<lambda>c. len c > 1) calls"
  by (simp add: enqueue_batch_def Let_def split: calltime.splits)

lemma after_batch_queue:
  "callQueue (after_batch body s)
   = callQueue s @ filter (\<lambda>c. len c > 1) (case body of None \<Rightarrow> [] | Some cs \<Rightarrow> cs)"
  by (simp add: after_batch_def Let_def enqueue_batch_queue)

lemma settle_queue: "callQueue (settle c) = callQueue (final c)"
  by (cases c) (simp_all add: settle_def setStatus_def)

lemma idle_play_queue:
  "callQueue (final (idle_play s)) =
     (if isPlaying s \<and> (audioPaused s \<or> audioEnded s)
      then drop 1 (dropWhile no_audio (callQueue s)) else callQueue s)"
  by (auto simp: idle_play_def playNextCall_queue)

lemma fetchCalls_resume_queue:
  "callQueue (fetchCalls_resume (Json body) s) =
     (if isPlaying s \<and> (audioPaused s \<or> audioEnded s)
      then drop 1 (dropWhile no_audio (callQueue (after_batch body s)))
      else callQueue (after_batch body s))"
proof -
  have "same_page s (after_batch body s)" by (rule after_batch_same_page)
  moreover have "audioPaused (after_batch body s) = audioPaused s"
    "audioEnded (after_batch body s) = audioEnded s"
    by (simp_all add: after_batch_def enqueue_batch_def Let_def split: calltime.splits)
  ultimately show ?thesis
    by (simp add: fetchCalls_resume_Json settle_queue idle_play_queue same_page_def)
qed

lemma list_all_played: "list_all P xs \<Longrightarrow> list_all P (drop n (dropWhile Q xs))"
  by (metis (no_types, lifting) in_set_dropD list_all_iff set_dropWhileD)

lemma playNextCall_long: "list_all P (callQueue s) \<Longrightarrow> list_all P (callQueue (final (playNextCall s)))"
  by (simp add: playNextCall_queue list_all_played)

lemma fetchCalls_resume_long:
  assumes "list_all long_call (callQueue s)"
  shows "list_all long_call (callQueue (fetchCalls_resume r s))"
proof (cases r)
  case (Json body)
  have "list_all long_call (callQueue (after_batch body s))"
    using assms by (auto simp: after_batch_queue long_call_def list_all_iff split: option.splits)
  then show ?thesis
    by (simp add: Json fetchCalls_resume_queue list_all_played)
qed (simp_all add: assms fetchCalls_resume_def setStatus_def)

lemma step_long:
  assumes "list_all long_call (callQueue s)"
  shows "list_all long_call (callQueue (step s e))"
proof (cases e)
  case (FeedChange idx now)
  then show ?thesis
    by (simp add: onFeedChange_def resetAudio_def stopOpenMHz_def startOpenMHz_def
        install_interval_def Let_def ui_defs split: option.splits)
next
  case (TogglePlay now)
  then show ?thesis
    using assms
    by (simp add: togglePlay_def stopOpenMHz_def startOpenMHz_def install_interval_def
        Let_def ui_defs split: option.splits)
next
  case AudioError
  then show ?thesis
    using assms by (simp add: onAudioError_def playNextCall_long Let_def ui_defs)
next
  case AudioPause
  then show ?thesis using assms by (simp add: onAudioPause_def ui_defs)
next
  case AudioEnded
  then show ?thesis
    using assms playNextCall_long [of long_call "s\<lparr> audioEnded := True \<rparr>"]
    by (simp add: onAudioEnded_def)
next
  case (Tick h)
  then show ?thesis using assms by (simp add: poll_def split: option.splits)
next
  case (Completed k r)
  then show ?thesis
    using assms
      fetchCalls_resume_long [of "s\<lparr> requests := take k (requests s) @ drop (Suc k) (requests s) \<rparr>" r]
    by (simp add: complete_request_def Let_def install_interval_def)
next
  case RetryTimeout
  then show ?thesis
    using assms playNextCall_long [of long_call "s\<lparr> retries := retries s - 1 \<rparr>"]
    by simp
qed (simp_all add: assms onVolume_def onAudioPlaying_def onAudioWaiting_def ui_defs)

lemma run_long: "list_all long_call (callQueue s) \<Longrightarrow> list_all long_call (callQueue (run s evs))"
  unfolding run_def by (induction evs arbitrary: s) (simp_all add: step_long)

text \<open>
  Claim C4. For every fetched batch, the calls pushed onto the call queue are exactly
  those of the batch whose \<open>len\<close> is greater than 1, in order. After the poll the queue is
  the old queue followed by them when no call is started by the poll, and what
  \<open>playNextCall\<close> leaves of that otherwise. Every event of the controller keeps the
  queue free of calls with \<open>len \<le> 1\<close>, so from the start it only ever contains calls
  longer than 1. For the batch \<open>[{len:0.5}, {len:5, time:T1}, {len:10, time:T2}]\<close> the two
  last calls are pushed and the watermark becomes \<open>T2 + 1\<close>.
\<close>

theorem queue_holds_only_long_calls:
  shows "callQueue (enqueue_batch calls s) = callQueue s @ filter (\<lambda>c. len c > 1) calls
       \<and> (\<not> (isPlaying s \<and> (audioPaused s \<or> audioEnded s)) \<longrightarrow>
            callQueue (fetchCalls_resume (Json (Some calls)) s)
            = callQueue s @ filter (\<lambda>c. len c > 1) calls)
       \<and> (isPlaying s \<and> (audioPaused s \<or> audioEnded s) \<longrightarrow>
            callQueue (fetchCalls_resume (Json (Some calls)) s)
            = drop 1 (dropWhile no_audio (callQueue s @ filter (\<lambda>c. len c > 1) calls)))
       \<and> (list_all (\<lambda>c. len c > 1) (callQueue s) \<longrightarrow>
            list_all (\<lambda>c. len c > 1) (callQueue (step s e)))
       \<and> list_all (\<lambda>c. len c > 1) (callQueue (run (scanner_init v) evs))
       \<and> (len ca = 1 / 2 \<and> len cb = 5 \<and> time cb = TimeMs Ta \<and> len cc = 10
          \<and> time cc = TimeMs Tb \<longrightarrow>
            filter (\<lambda>c. len c > 1) [ca, cb, cc] = [cb, cc]
          \<and> callQueue (enqueue_batch [ca, cb, cc] s) = callQueue s @ [cb, cc]
          \<and> length (callQueue (enqueue_batch [ca, cb, cc] s)) = length (callQueue s) + 2
          \<and> lastCallTime (enqueue_batch [ca, cb, cc] s) = Some (Num (Tb + 1))
          \<and> lastCallTime (fetchCalls_resume (Json (Some [ca, cb, cc])) s) = Some (Num (Tb + 1)))"
proof -
  have step: "list_all (\<lambda>c. len c > 1) (callQueue s) \<longrightarrow>
      list_all (\<lambda>c. len c > 1) (callQueue (step s e))"
    using step_long [of s e] by (simp add: long_call_def [abs_def])
  have "list_all long_call (callQueue (scanner_init v))"
    by (simp add: scanner_init_def)
  then have run: "list_all (\<lambda>c. len c > 1) (callQueue (run (scanner_init v) evs))"
    using run_long [of "scanner_init v" evs] by (simp add: long_call_def [abs_def])
  have poll: "callQueue (fetchCalls_resume (Json (Some calls)) s) =
     (if isPlaying s \<and> (audioPaused s \<or> audioEnded s)
      then drop 1 (dropWhile no_audio (callQueue s @ filter (\<lambda>c. len c > 1) calls))
      else callQueue s @ filter (\<lambda>c. len c > 1) calls)"
    by (auto simp: fetchCalls_resume_queue after_batch_queue)
  have scen: "filter (\<lambda>c. len c > 1) [ca, cb, cc] = [cb, cc]
          \<and> callQueue (enqueue_batch [ca, cb, cc] s) = callQueue s @ [cb, cc]
          \<and> length (callQueue (enqueue_batch [ca, cb, cc] s)) = length (callQueue s) + 2
          \<and> lastCallTime (enqueue_batch [ca, cb, cc] s) = Some (Num (Tb + 1))
          \<and> lastCallTime (fetchCalls_resume (Json (Some [ca, cb, cc])) s) = Some (Num (Tb + 1))"
    if "len ca = 1 / 2 \<and> len cb = 5 \<and> time cb = TimeMs Ta \<and> len cc = 10 \<and> time cc = TimeMs Tb"
    using that
    by (simp add: enqueue_batch_queue enqueue_batch_lastCallTime
        fetchCalls_resume_lastCallTime after_batch_def)
  show ?thesis
    using step run poll scen by (auto simp add: enqueue_batch_queue simp del: step.simps)
qed

definition spec_batch :: "call list" where
  "spec_batch = [silent (1 / 2) NoTime, clip 5 (TimeMs 990000), clip 10 (TimeMs 995000)]"

theorem queue_holds_only_long_calls_witness:
  "len (silent (1 / 2) NoTime) = 1 / 2 \<and> len (clip 5 (TimeMs 990000)) = 5
   \<and> time (clip 5 (TimeMs 990000)) = TimeMs 990000 \<and> len (clip 10 (TimeMs 995000)) = 10
   \<and> time (clip 10 (TimeMs 995000)) = TimeMs 995000
   \<and> callQueue (enqueue_batch spec_batch polling)
       = [clip 5 (TimeMs 990000), clip 10 (TimeMs 995000)]
   \<and> lastCallTime (fetchCalls_resume (Json (Some spec_batch)) polling) = Some (Num 995001)
   \<and> isPlaying polling \<and> audioPaused polling
   \<and> callQueue (fetchCalls_resume (Json (Some spec_batch)) polling)
       = [clip 10 (TimeMs 995000)]
   \<and> list_all (\<lambda>c. len c > 1) (callQueue queue_playing)
   \<and> list_all (\<lambda>c. len c > 1) (callQueue (step queue_playing AudioEnded))"
proof -
  have c: "len (silent (1 / 2) NoTime) = 1 / 2 \<and> len (clip 5 (TimeMs 990000)) = 5
     \<and> time (clip 5 (TimeMs 990000)) = TimeMs 990000 \<and> len (clip 10 (TimeMs 995000)) = 10
     \<and> time (clip 10 (TimeMs 995000)) = TimeMs 995000"
    by (simp add: silent_def clip_def)
  have q: "list_all (\<lambda>c. len c > 1) (callQueue queue_playing)"
    by (simp add: queue_playing_def silent_def clip_def)
  have a: "\<not> no_audio (clip 5 (TimeMs 990000))"
    by (simp add: no_audio_def clip_def js_or_def truthy_def)
  note main = queue_holds_only_long_calls
    [where calls = spec_batch and s = polling and ca = "silent (1 / 2) NoTime"
      and cb = "clip 5 (TimeMs 990000)" and Ta = 990000 and cc = "clip 10 (TimeMs 995000)"
      and Tb = 995000]
  note inv = queue_holds_only_long_calls [where s = queue_playing and e = AudioEnded]
  show ?thesis
    using main inv c q a
    by (simp add: polling_fields spec_batch_def del: step.simps)
qed

subsection \<open>Feed selection and the polling interval\<close>

text \<open>
  A second feed is selected while the request that the first \<open>startOpenMHz\<close> awaits is
  still in flight; then both requests complete (with no new calls).
\<close>

definition two_selections :: "event list" where
  "two_selections =
     [FeedChange (Num 0) 1000000, FeedChange (Num 1) 1002000,
      Completed 0 (Json (Some [])), Completed 0 (Json (Some []))]"

lemma resetAudio_tears_down:
  "callQueue (resetAudio s) = [] \<and> audioSrc (resetAudio s) = None
   \<and> (case pollTimer s of
         None \<Rightarrow> intervals (resetAudio s) = intervals s
       | Some h \<Rightarrow> h = 0 \<or> (h \<notin> set (intervals (resetAudio s)) \<and> pollTimer (resetAudio s) = None))"
  by (simp add: resetAudio_def stopOpenMHz_def Let_def ui_defs split: option.splits)

text \<open>
  Claim C1 fails on the code. \<open>onFeedChange\<close> cancels the interval whose handle is in
  \<open>pollTimer\<close> and clears the queue and the audio source; but \<open>startOpenMHz\<close> stores the
  handle only after its awaited \<open>fetchCalls\<close>. When the second selection arrives before
  that, there is no handle to cancel, both invocations of \<open>startOpenMHz\<close> go on to install
  an interval, and two intervals are active: both fire and poll, and the one whose handle
  was overwritten survives every later selection.
\<close>

theorem second_selection_during_first_fetch:
  "map awaited (requests (run (scanner_init 50) (take 1 two_selections))) = [True]
   \<and> pollTimer (run (scanner_init 50) (take 1 two_selections)) = None
   \<and> map req_system (requests (run (scanner_init 50) (take 2 two_selections)))
       = [Some ''ntirnd1'', Some ''sfp25'']
   \<and> intervals (run (scanner_init 50) two_selections) = [1, 2]
   \<and> pollTimer (run (scanner_init 50) two_selections) = Some 2
   \<and> map req_system (requests (run (scanner_init 50) (two_selections @ [Tick 1, Tick 2])))
       = [Some ''sfp25'', Some ''sfp25'']
   \<and> intervals (run (scanner_init 50) (two_selections @ [FeedChange (Num 0) 1020000]))
       = [1]"
  by (simp add: two_selections_def run_def scanner_defs playNextCall_Nil)

end
